theory Spec2Isabelle
  imports Main "HOL-Library.Multiset" "HOL-Library.Char_ord" "HOL-Library.List_Lexorder"
begin

section \<open>Data model of dynamiXMain.py\<close>

text \<open>
  Exceptions of the Python code are values. \<open>RemoteError\<close> stands for any exception a
  call into the Plex server raises.
\<close>

datatype error = ValueError | TypeError | OverflowError | JSONDecodeError | RemoteError

text \<open>
  A calendar date is its proleptic Gregorian ordinal (\<^verbatim>\<open>date.toordinal()\<close>), so that
  \<^verbatim>\<open>d1 > d2\<close> on dates is \<open>>\<close> on integers and adding a \<^verbatim>\<open>timedelta(days=n)\<close> is
  adding \<open>n\<close>.
\<close>

type_synonym date = int

text \<open>
  A Python dict is an association list in insertion order. \<^verbatim>\<open>k in d\<close> tests the keys,
  \<^verbatim>\<open>d[k] = v\<close> overwrites the value in place when the key is present and appends the
  pair otherwise.
\<close>

type_synonym ('k, 'v) dict = "('k \<times> 'v) list"

definition dict_in :: "'k \<Rightarrow> ('k, 'v) dict \<Rightarrow> bool" where
  "dict_in k d = (k \<in> set (map fst d))"

fun dict_set :: "'k \<Rightarrow> 'v \<Rightarrow> ('k, 'v) dict \<Rightarrow> ('k, 'v) dict" where
  "dict_set k v [] = [(k, v)]"
| "dict_set k v (p # ps) = (if fst p = k then (k, v) # ps else p # dict_set k v ps)"

definition dict_get :: "('k, 'v) dict \<Rightarrow> 'k \<Rightarrow> 'v \<Rightarrow> 'v" where
  "dict_get d k dflt = (case map_of d k of None \<Rightarrow> dflt | Some v \<Rightarrow> v)"

text \<open>A field read with \<^verbatim>\<open>.get(key, default)\<close>, where \<open>None\<close> is the missing key.\<close>

fun the_default :: "'a \<Rightarrow> 'a option \<Rightarrow> 'a" where
  "the_default dflt None = dflt"
| "the_default dflt (Some v) = v"

text \<open>
  A plexapi collection object: \<open>ident\<close> is the identity of the object (two collections
  of different libraries may carry the same title), \<open>items\<close> is
  \<^verbatim>\<open>len(collection.items())\<close>, or \<open>None\<close> when that remote call raises.
\<close>

record collection =
  ident :: nat
  title :: string
  items :: "nat option"

section \<open>Cleaning expired exclusions (main, lines 337-340)\<close>

text \<open>
  \<^verbatim>\<open>
  used_collections = {
      name: date for name, date in used_collections.items()
      if datetime.strptime(date, '%Y-%m-%d').date() > current_date
  }
  \<close>
  \<open>strptime\<close> is the library parser, a parameter: \<open>None\<close> when it raises ValueError.
  The comprehension parses the entries in order and raises at the first one that does
  not parse.
\<close>

fun clean :: "(string \<Rightarrow> date option) \<Rightarrow> date \<Rightarrow> (string, string) dict
    \<Rightarrow> error + (string, string) dict" where
  "clean strptime current_date [] = Inr []"
| "clean strptime current_date ((name, d) # rest) =
     (case strptime d of
        None \<Rightarrow> Inl ValueError
      | Some expires \<Rightarrow>
          (case clean strptime current_date rest of
             Inl e \<Rightarrow> Inl e
           | Inr kept \<Rightarrow> Inr (if expires > current_date then (name, d) # kept else kept)))"

section \<open>Selection (main, lines 373-396)\<close>

text \<open>
  \<^verbatim>\<open>
  valid_collections = [
      collection for collection in collections
      if len(collection.items()) >= min_items
         and collection.title not in used_collections
         and collection.title not in user_exemptions
  ]
  \<close>
  \<^verbatim>\<open>collection.items()\<close> is evaluated for every collection, before the two membership
  tests; when it raises the comprehension raises.
\<close>

fun valid_collections :: "int \<Rightarrow> (string, string) dict \<Rightarrow> string list \<Rightarrow> collection list
    \<Rightarrow> error + collection list" where
  "valid_collections min_items used_collections user_exemptions [] = Inr []"
| "valid_collections min_items used_collections user_exemptions (c # cs) =
     (case items c of
        None \<Rightarrow> Inl RemoteError
      | Some n \<Rightarrow>
          (case valid_collections min_items used_collections user_exemptions cs of
             Inl e \<Rightarrow> Inl e
           | Inr rest \<Rightarrow>
               Inr (if int n \<ge> min_items
                       \<and> \<not> dict_in (title c) used_collections
                       \<and> title c \<notin> set user_exemptions
                    then c # rest else rest)))"

text \<open>
  \<^verbatim>\<open>random.SystemRandom().sample(population, k)\<close> of the standard library: ValueError
  unless \<open>0 \<le> k \<le> len(population)\<close>; otherwise \<open>k\<close> draws without replacement from a
  pool, where draw \<open>i\<close> takes position \<open>j = randbelow(n - i)\<close> and moves the last live
  element of the pool into position \<open>j\<close>. The random source is the parameter
  \<open>randbelow\<close>: its \<open>i\<close>-th output, reduced into range. (On a large population the
  library draws positions of the population instead and rejects a position it has drawn
  before; the draws from the pool stand for both.)
\<close>

fun sample_loop :: "(nat \<Rightarrow> nat) \<Rightarrow> nat \<Rightarrow> 'a list \<Rightarrow> nat \<Rightarrow> 'a list" where
  "sample_loop randbelow i pool 0 = []"
| "sample_loop randbelow i pool (Suc k) =
     (let j = randbelow i mod length pool
      in pool ! j # sample_loop randbelow (Suc i) (butlast (pool[j := last pool])) k)"

definition sample :: "(nat \<Rightarrow> nat) \<Rightarrow> 'a list \<Rightarrow> int \<Rightarrow> error + 'a list" where
  "sample randbelow population k =
     (if 0 \<le> k \<and> k \<le> int (length population)
      then Inr (sample_loop randbelow 0 population (nat k))
      else Inl ValueError)"

text \<open>
  What the body of the library loop decides for one library: \<open>ResetNeeded\<close> is
  \<^verbatim>\<open>reset_needed = True; break\<close>, \<open>NoValid\<close> is the \<^verbatim>\<open>continue\<close> on an empty
  \<^verbatim>\<open>valid_collections\<close>, \<open>ToPin\<close> carries \<^verbatim>\<open>collections_to_pin\<close>.
\<close>

datatype selection = ResetNeeded | NoValid | ToPin "collection list"

definition select :: "(nat \<Rightarrow> nat) \<Rightarrow> int \<Rightarrow> (string, string) dict \<Rightarrow> string list \<Rightarrow> int
    \<Rightarrow> collection list \<Rightarrow> error + selection" where
  "select randbelow min_items used_collections user_exemptions final_limit collections =
     (case valid_collections min_items used_collections user_exemptions collections of
        Inl e \<Rightarrow> Inl e
      | Inr valid \<Rightarrow>
          if int (length valid) < final_limit then Inr ResetNeeded
          else if valid = [] then Inr NoValid
          else (let pin_limit = min (int (length valid)) final_limit
                in case sample randbelow valid pin_limit of
                     Inl e \<Rightarrow> Inl e
                   | Inr collections_to_pin \<Rightarrow> Inr (ToPin collections_to_pin)))"

text \<open>The collections a decision selects: none for \<open>ResetNeeded\<close> and \<open>NoValid\<close>.\<close>

fun selected :: "selection \<Rightarrow> collection list" where
  "selected ResetNeeded = []"
| "selected NoValid = []"
| "selected (ToPin cs) = cs"

text \<open>
  The eligible set in the words of the specification: the collections with
  \<open>itemCount \<ge> minItems\<close> whose title is neither in the exclusion map nor in the
  exemption set.
\<close>

definition eligible :: "int \<Rightarrow> (string, string) dict \<Rightarrow> string list \<Rightarrow> collection list
    \<Rightarrow> collection list" where
  "eligible min_items exclusions exemptions cs =
     filter (\<lambda>c. (case items c of None \<Rightarrow> False | Some n \<Rightarrow> int n \<ge> min_items)
                 \<and> \<not> dict_in (title c) exclusions
                 \<and> title c \<notin> set exemptions) cs"

section \<open>Persisted files (lines 113-165)\<close>

text \<open>
  A JSON file as the loaders see it: \<open>Absent\<close> when \<^verbatim>\<open>os.path.exists\<close> is false,
  \<open>Unparseable\<close> when \<^verbatim>\<open>json.load\<close> raises JSONDecodeError, \<open>Holds v\<close> when it
  returns \<open>v\<close>. Writing a file is taken to succeed.
\<close>

datatype 'a json_file = Absent | Unparseable | Holds 'a

definition load_used_collections :: "(string, string) dict json_file \<Rightarrow> error + (string, string) dict" where
  "load_used_collections f =
     (case f of Absent \<Rightarrow> Inr [] | Unparseable \<Rightarrow> Inl JSONDecodeError | Holds d \<Rightarrow> Inr d)"

definition load_user_exemptions :: "string list json_file \<Rightarrow> error + string list" where
  "load_user_exemptions f =
     (case f of Absent \<Rightarrow> Inr [] | Unparseable \<Rightarrow> Inl JSONDecodeError | Holds xs \<Rightarrow> Inr xs)"

definition save_used_collections :: "(string, string) dict \<Rightarrow> (string, string) dict json_file" where
  "save_used_collections d = Holds d"

definition reset_exclusion_list_file :: "(string, string) dict json_file" where
  "reset_exclusion_list_file = Holds []"

section \<open>Configuration and the time block resolver (lines 262-292, 366-370)\<close>

text \<open>
  The configuration document. A field read with \<^verbatim>\<open>.get(key, default)\<close> is an option
  (\<open>None\<close>: the key is missing). The blocks of a day are \<open>NotADict\<close> when the JSON value
  is not an object, which is what the \<^verbatim>\<open>isinstance\<close> test of the resolver guards.
\<close>

record time_block =
  start_time :: "string option"
  end_time :: "string option"
  limit :: "int option"

datatype day_blocks = NotADict | Blocks "(string, time_block) dict"

record library_settings =
  time_blocks :: "(string, day_blocks) dict"
  default_limit :: "int option"

record config =
  libraries :: "string list"
  minimum_items :: "int option"
  exclusion_days :: "int option"
  always_pin_new_episodes :: "bool option"
  pinning_interval :: "int option"
  default_limits :: "(string, int) dict"
  libraries_settings :: "(string, library_settings) dict"

text \<open>\<^verbatim>\<open>config.get("libraries_settings", {}).get(library_name, {})\<close>\<close>

definition settings_of :: "config \<Rightarrow> string \<Rightarrow> library_settings" where
  "settings_of cfg library_name =
     dict_get (libraries_settings cfg) library_name \<lparr>time_blocks = [], default_limit = None\<rparr>"

text \<open>
  \<^verbatim>\<open>
  for block, details in day_blocks.items():
      if details.get("start_time") <= current_time < details.get("end_time"):
          return block, details.get("limit", library_default_limit)
  return "Default", library_default_limit
  \<close>
  The chained comparison evaluates \<^verbatim>\<open>start <= current_time\<close> first and reads the end
  time only when that holds; comparing \<^verbatim>\<open>None\<close> with a string raises TypeError.
  Strings compare lexicographically.
\<close>

fun first_block :: "string \<Rightarrow> int \<Rightarrow> (string, time_block) dict \<Rightarrow> error + (string \<times> int)" where
  "first_block current_time library_default_limit [] = Inr (''Default'', library_default_limit)"
| "first_block current_time library_default_limit ((block, details) # rest) =
     (case start_time details of
        None \<Rightarrow> Inl TypeError
      | Some s \<Rightarrow>
          if s \<le> current_time then
            (case end_time details of
               None \<Rightarrow> Inl TypeError
             | Some e \<Rightarrow>
                 if current_time < e
                 then Inr (block, the_default library_default_limit (limit details))
                 else first_block current_time library_default_limit rest)
          else first_block current_time library_default_limit rest)"

text \<open>
  \<open>current_day\<close> and \<open>current_time\<close> are \<^verbatim>\<open>now.strftime("%A")\<close> and
  \<^verbatim>\<open>now.strftime("%H:%M")\<close> of the clock the function reads.
\<close>

definition get_current_time_block :: "config \<Rightarrow> string \<Rightarrow> string \<Rightarrow> string
    \<Rightarrow> error + (string \<times> int)" where
  "get_current_time_block cfg library_name current_day current_time =
     (let library_default_limit = dict_get (default_limits cfg) library_name 5
      in case dict_get (time_blocks (settings_of cfg library_name)) current_day (Blocks []) of
           NotADict \<Rightarrow> Inr (''Default'', library_default_limit)
         | Blocks day_blocks \<Rightarrow> first_block current_time library_default_limit day_blocks)"

text \<open>
  \<^verbatim>\<open>
  current_block, current_limit = get_current_time_block(config, library_name)
  library_settings = config.get("libraries_settings", {}).get(library_name, {})
  default_limit = library_settings.get("default_limit", 5)
  final_limit = current_limit if current_block != "Default" else default_limit
  \<close>
\<close>

definition final_limit :: "config \<Rightarrow> string \<Rightarrow> string \<Rightarrow> string \<Rightarrow> error + int" where
  "final_limit cfg library_name current_day current_time =
     (case get_current_time_block cfg library_name current_day current_time of
        Inl e \<Rightarrow> Inl e
      | Inr (current_block, current_limit) \<Rightarrow>
          Inr (if current_block \<noteq> ''Default'' then current_limit
               else the_default 5 (default_limit (settings_of cfg library_name))))"

section \<open>The Plex server and the pinning helpers (lines 182-260)\<close>

text \<open>
  The server as the script uses it: \<open>collections_of name\<close> is
  \<^verbatim>\<open>plex.library.section(name).collections()\<close>, \<open>None\<close> when it raises; \<open>promote c\<close>
  tells whether \<^verbatim>\<open>visibility()\<close>, \<^verbatim>\<open>promoteHome()\<close> and \<^verbatim>\<open>promoteShared()\<close> on
  \<open>c\<close> all return, \<open>demote c\<close> the same for the demoting calls.
\<close>

record plex =
  collections_of :: "string \<Rightarrow> collection list option"
  promote :: "collection \<Rightarrow> bool"
  demote :: "collection \<Rightarrow> bool"

text \<open>
  What a run does that is visible outside: \<open>Promote c\<close> and \<open>Demote c\<close> are the
  attempts to pin and unpin \<open>c\<close> on the server, the others are the error and warning
  lines of the log.
\<close>

datatype event =
    Promote collection
  | Demote collection
  | ErrorPinning string
  | ErrorUnpinning string
  | ErrorLibrary string
  | NotEnough string

fun is_call :: "event \<Rightarrow> bool" where
  "is_call (Promote c) = True"
| "is_call (Demote c) = True"
| "is_call e = False"

text \<open>
  \<^verbatim>\<open>str.lower()\<close> on the bytes of a title: the letters A to Z are mapped, any other
  byte is kept. The code only compares the result with \<^verbatim>\<open>"new episodes"\<close>, and no
  character outside A to Z has a lower case that is a letter of that string, so the
  comparison is decided as in Python.
\<close>

definition lower_char :: "char \<Rightarrow> char" where
  "lower_char c = (if CHR ''A'' \<le> c \<and> c \<le> CHR ''Z'' then char_of (of_char c + (32::nat)) else c)"

definition lower :: "string \<Rightarrow> string" where
  "lower s = map lower_char s"

text \<open>The inner loop of \<^verbatim>\<open>handle_new_episodes_pinning\<close>, with its \<^verbatim>\<open>break\<close>.\<close>

fun new_episodes_loop :: "plex \<Rightarrow> bool \<Rightarrow> collection list \<Rightarrow> event list" where
  "new_episodes_loop server always_pin [] = []"
| "new_episodes_loop server always_pin (c # cs) =
     (if lower (title c) = ''new episodes'' then
        (if always_pin
         then Promote c # (if promote server c then [] else [ErrorPinning ''New Episodes''])
         else Demote c # (if demote server c then [] else [ErrorUnpinning ''New Episodes'']))
      else new_episodes_loop server always_pin cs)"

fun handle_new_episodes_pinning :: "plex \<Rightarrow> string list \<Rightarrow> bool \<Rightarrow> event list" where
  "handle_new_episodes_pinning server [] always_pin = []"
| "handle_new_episodes_pinning server (library_name # rest) always_pin =
     (case collections_of server library_name of
        None \<Rightarrow> [ErrorLibrary library_name]
      | Some cs \<Rightarrow> new_episodes_loop server always_pin cs)
     @ handle_new_episodes_pinning server rest always_pin"

fun unpin_loop :: "plex \<Rightarrow> bool \<Rightarrow> collection list \<Rightarrow> event list" where
  "unpin_loop server always_pin [] = []"
| "unpin_loop server always_pin (c # cs) =
     (if always_pin \<and> lower (title c) = ''new episodes'' then unpin_loop server always_pin cs
      else Demote c # (if demote server c then [] else [ErrorUnpinning (title c)])
           @ unpin_loop server always_pin cs)"

fun unpin_collections :: "plex \<Rightarrow> string list \<Rightarrow> bool \<Rightarrow> event list" where
  "unpin_collections server [] always_pin = []"
| "unpin_collections server (library_name # rest) always_pin =
     (case collections_of server library_name of
        None \<Rightarrow> [ErrorLibrary library_name]
      | Some cs \<Rightarrow> unpin_loop server always_pin cs)
     @ unpin_collections server rest always_pin"

text \<open>
  \<^verbatim>\<open>current_date + timedelta(days=n)\<close>: OverflowError outside \<^verbatim>\<open>date.min\<close> (ordinal 1)
  to \<^verbatim>\<open>date.max\<close> (ordinal 3652059).
\<close>

definition date_add :: "date \<Rightarrow> int \<Rightarrow> error + date" where
  "date_add d n = (if 1 \<le> d + n \<and> d + n \<le> 3652059 then Inr (d + n) else Inl OverflowError)"

text \<open>
  \<^verbatim>\<open>
  for collection in previous_pinned:
      expiration_date = (current_date + timedelta(days=exclusion_days)).strftime('%Y-%m-%d')
      used_collections[collection.title] = expiration_date
  \<close>
  \<open>strftime\<close> is the library formatter, a parameter. The function reads the clock
  itself: \<open>current_date\<close> is that reading.
\<close>

fun log_and_update_exclusion_list :: "(date \<Rightarrow> string) \<Rightarrow> date \<Rightarrow> collection list
    \<Rightarrow> (string, string) dict \<Rightarrow> int \<Rightarrow> error + (string, string) dict" where
  "log_and_update_exclusion_list strftime current_date [] used_collections days = Inr used_collections"
| "log_and_update_exclusion_list strftime current_date (c # previous_pinned) used_collections days =
     (case date_add current_date days of
        Inl e \<Rightarrow> Inl e
      | Inr expiration \<Rightarrow>
          log_and_update_exclusion_list strftime current_date previous_pinned
            (dict_set (title c) (strftime expiration) used_collections) days)"

section \<open>One pass of the main loop (lines 333-440)\<close>

text \<open>
  The pinning loop over \<^verbatim>\<open>collections_to_pin\<close>: a collection is appended to
  \<^verbatim>\<open>previous_pinned\<close> after its three calls have returned; when one raises, the error
  is logged and the loop goes on. The result is what the loop appends to
  \<^verbatim>\<open>previous_pinned\<close>, and its events.
\<close>

fun pin_loop :: "plex \<Rightarrow> collection list \<Rightarrow> collection list \<times> event list" where
  "pin_loop server [] = ([], [])"
| "pin_loop server (c # cs) =
     (let (pinned, ev) = pin_loop server cs
      in if promote server c then (c # pinned, Promote c # ev)
         else (pinned, Promote c # ErrorPinning (title c) # ev))"

text \<open>
  What a pass reads from outside the script: the server, the clock (\<open>today\<close> at the
  top of the pass, \<open>weekday\<close> and \<open>hhmm\<close> in the resolver, \<open>record_day\<close> in
  \<^verbatim>\<open>log_and_update_exclusion_list\<close>), the date parser and formatter, the random source
  (one stream of draws for each position in the library list), and the seconds the work
  of the pass takes.
\<close>

record env =
  server :: plex
  today :: date
  weekday :: string
  hhmm :: string
  record_day :: date
  parse_date :: "string \<Rightarrow> date option"
  format_date :: "date \<Rightarrow> string"
  rng :: "nat \<Rightarrow> nat \<Rightarrow> nat"
  elapsed :: nat

text \<open>The body of the library loop up to the selection, inside its \<^verbatim>\<open>try\<close>.\<close>

definition process_library :: "config \<Rightarrow> env \<Rightarrow> int \<Rightarrow> (string, string) dict \<Rightarrow> string list
    \<Rightarrow> nat \<Rightarrow> string \<Rightarrow> error + selection" where
  "process_library cfg w min_items used_collections user_exemptions k library_name =
     (case collections_of (server w) library_name of
        None \<Rightarrow> Inl RemoteError
      | Some collections \<Rightarrow>
          (case final_limit cfg library_name (weekday w) (hhmm w) of
             Inl e \<Rightarrow> Inl e
           | Inr lim \<Rightarrow> select (rng w k) min_items used_collections user_exemptions lim collections))"

text \<open>
  The loop over the libraries, from position \<open>k\<close>: the result is
  \<^verbatim>\<open>previous_pinned\<close>, \<^verbatim>\<open>reset_needed\<close> and the events. An exception in a library is
  logged and the loop goes on; \<open>ResetNeeded\<close> is the \<^verbatim>\<open>break\<close>.
\<close>

fun library_loop :: "config \<Rightarrow> env \<Rightarrow> int \<Rightarrow> (string, string) dict \<Rightarrow> string list
    \<Rightarrow> nat \<Rightarrow> string list \<Rightarrow> collection list \<times> bool \<times> event list" where
  "library_loop cfg w min_items used_collections user_exemptions k [] = ([], False, [])"
| "library_loop cfg w min_items used_collections user_exemptions k (library_name # rest) =
     (case process_library cfg w min_items used_collections user_exemptions k library_name of
        Inl e \<Rightarrow>
          (let (pinned, reset_needed, ev) =
                 library_loop cfg w min_items used_collections user_exemptions (Suc k) rest
           in (pinned, reset_needed, ErrorLibrary library_name # ev))
      | Inr ResetNeeded \<Rightarrow> ([], True, [NotEnough library_name])
      | Inr NoValid \<Rightarrow> library_loop cfg w min_items used_collections user_exemptions (Suc k) rest
      | Inr (ToPin collections_to_pin) \<Rightarrow>
          (let (pinned_here, ev_here) = pin_loop (server w) collections_to_pin;
               (pinned, reset_needed, ev) =
                 library_loop cfg w min_items used_collections user_exemptions (Suc k) rest
           in (pinned_here @ pinned, reset_needed, ev_here @ ev)))"

text \<open>
  \<^verbatim>\<open>time.sleep(secs)\<close>: ValueError on a negative argument, otherwise the clock moves
  on by \<open>secs\<close> seconds and nothing else happens.
\<close>

definition sleep :: "int \<Rightarrow> nat \<Rightarrow> error + nat" where
  "sleep secs clk = (if secs < 0 then Inl ValueError else Inr (clk + nat secs))"

text \<open>
  The state the loop carries from one pass to the next: the dict \<^verbatim>\<open>used_collections\<close>,
  the file behind it, and the time in seconds.
\<close>

record state =
  used :: "(string, string) dict"
  used_file :: "(string, string) dict json_file"
  clock :: nat

datatype pass_end = Restarted | Slept

text \<open>
  One run of the body of \<^verbatim>\<open>while not stop_event.is_set()\<close>. \<open>Restarted\<close> is the
  \<^verbatim>\<open>continue\<close> after a reset, \<open>Slept\<close> is the end of the body after
  \<^verbatim>\<open>time.sleep(pinning_interval)\<close>; an error is an exception that leaves the loop.
  \<open>gui\<close> tells whether \<^verbatim>\<open>gui_instance\<close> is given: then the reset goes through
  \<^verbatim>\<open>gui_instance.reset_exclusion_list()\<close> and the dict is loaded again from the file.
\<close>

definition pass :: "config \<Rightarrow> bool \<Rightarrow> string list \<Rightarrow> env \<Rightarrow> state
    \<Rightarrow> error + (pass_end \<times> state \<times> event list)" where
  "pass cfg gui user_exemptions w st =
     (let libs = libraries cfg;
          min_items = the_default 1 (minimum_items cfg);
          days = the_default 3 (exclusion_days cfg);
          always_pin = the_default False (always_pin_new_episodes cfg);
          interval = the_default 30 (pinning_interval cfg) * 60
      in case clean (parse_date w) (today w) (used st) of
           Inl e \<Rightarrow> Inl e
         | Inr used_collections \<Rightarrow>
             (let ev1 = handle_new_episodes_pinning (server w) libs always_pin;
                  ev2 = unpin_collections (server w) libs always_pin;
                  (previous_pinned, reset_needed, ev3) =
                    library_loop cfg w min_items used_collections user_exemptions 0 libs;
                  ev = ev1 @ ev2 @ ev3;
                  clk = clock st + elapsed w
              in if reset_needed then
                   (if gui then
                      (case load_used_collections reset_exclusion_list_file of
                         Inl e \<Rightarrow> Inl e
                       | Inr reloaded \<Rightarrow>
                           Inr (Restarted,
                                \<lparr>used = reloaded, used_file = reset_exclusion_list_file, clock = clk\<rparr>,
                                ev))
                    else Inr (Restarted,
                              \<lparr>used = [], used_file = reset_exclusion_list_file, clock = clk\<rparr>, ev))
                 else
                   (case (if previous_pinned \<noteq> []
                          then log_and_update_exclusion_list (format_date w) (record_day w)
                                 previous_pinned used_collections days
                          else Inr used_collections) of
                      Inl e \<Rightarrow> Inl e
                    | Inr recorded \<Rightarrow>
                        (case sleep interval clk of
                           Inl e \<Rightarrow> Inl e
                         | Inr woken \<Rightarrow>
                             Inr (Slept,
                                  \<lparr>used = recorded, used_file = save_used_collections recorded,
                                   clock = woken\<rparr>,
                                  ev)))))"

section \<open>The main loop (lines 298-447)\<close>

text \<open>
  How \<^verbatim>\<open>main\<close> ends: \<open>Exited\<close> when the loop condition finds the stop event set,
  \<open>Crashed\<close> when an exception reaches the outer handler, \<open>NoConfig\<close> on the early
  return, \<open>Running\<close> when the given number of passes is used up and the loop is still
  going.
\<close>

datatype outcome = Exited state | Crashed error | NoConfig | Running state

text \<open>
  The loop, for at most \<open>n\<close> passes. \<open>stop_event t\<close> tells whether the event is set at
  time \<open>t\<close>; pass number \<open>i\<close> reads the outside world \<open>world i\<close>.
\<close>

fun main_loop :: "nat \<Rightarrow> config \<Rightarrow> bool \<Rightarrow> string list \<Rightarrow> (nat \<Rightarrow> bool) \<Rightarrow> (nat \<Rightarrow> env)
    \<Rightarrow> nat \<Rightarrow> state \<Rightarrow> outcome" where
  "main_loop 0 cfg gui user_exemptions stop_event world i st =
     (if stop_event (clock st) then Exited st else Running st)"
| "main_loop (Suc n) cfg gui user_exemptions stop_event world i st =
     (if stop_event (clock st) then Exited st
      else case pass cfg gui user_exemptions (world i) st of
             Inl e \<Rightarrow> Crashed e
           | Inr (how, st', ev) \<Rightarrow>
               main_loop n cfg gui user_exemptions stop_event world (Suc i) st')"

text \<open>
  \<^verbatim>\<open>load_config\<close> gives the empty dict for an absent or unparseable file, and \<^verbatim>\<open>main\<close>
  returns on it; \<open>Holds cfg\<close> is a file with a non-empty object. The loader replaces the
  blocks of a day that are not a dict by the empty dict.
\<close>

definition sanitize_time_blocks :: "(string, day_blocks) dict \<Rightarrow> (string, day_blocks) dict" where
  "sanitize_time_blocks tb =
     map (\<lambda>(day, blocks). (day, case blocks of NotADict \<Rightarrow> Blocks [] | Blocks b \<Rightarrow> Blocks b)) tb"

definition load_config :: "config json_file \<Rightarrow> config option" where
  "load_config f =
     (case f of
        Absent \<Rightarrow> None
      | Unparseable \<Rightarrow> None
      | Holds cfg \<Rightarrow>
          Some (cfg\<lparr>libraries_settings :=
                  map (\<lambda>(library, settings).
                         (library, settings\<lparr>time_blocks := sanitize_time_blocks (time_blocks settings)\<rparr>))
                      (libraries_settings cfg)\<rparr>))"

text \<open>
  \<^verbatim>\<open>main\<close>: \<open>connects\<close> tells whether \<^verbatim>\<open>connect_to_plex\<close> returns. The two state files
  are loaded inside the outer \<^verbatim>\<open>try\<close>, before the loop.
\<close>

definition main :: "nat \<Rightarrow> config json_file \<Rightarrow> bool \<Rightarrow> (string, string) dict json_file \<Rightarrow> string list json_file
    \<Rightarrow> bool \<Rightarrow> (nat \<Rightarrow> bool) \<Rightarrow> (nat \<Rightarrow> env) \<Rightarrow> nat \<Rightarrow> outcome" where
  "main n config_file connects used_f exemptions_f gui stop_event world start =
     (case load_config config_file of
        None \<Rightarrow> NoConfig
      | Some cfg \<Rightarrow>
          if \<not> connects then Crashed RemoteError
          else (case load_used_collections used_f of
                  Inl e \<Rightarrow> Crashed e
                | Inr used_collections \<Rightarrow>
                    (case load_user_exemptions exemptions_f of
                       Inl e \<Rightarrow> Crashed e
                     | Inr user_exemptions \<Rightarrow>
                         main_loop n cfg gui user_exemptions stop_event world 0
                           \<lparr>used = used_collections, used_file = used_f, clock = start\<rparr>)))"

section \<open>Scenarios\<close>

text \<open>
  Concrete configurations and servers on which the model is run. In the first, two
  libraries with the default quota of 5: Movies holds two collections, TV one.
\<close>

definition reset_config :: config where
  "reset_config =
     \<lparr>libraries = [''Movies'', ''TV''], minimum_items = Some 1, exclusion_days = Some 3,
      always_pin_new_episodes = Some False, pinning_interval = Some 30,
      default_limits = [(''Movies'', 5), (''TV'', 5)], libraries_settings = []\<rparr>"

definition reset_world :: env where
  "reset_world =
     \<lparr>server =
        \<lparr>collections_of = (\<lambda>name.
            if name = ''Movies''
            then Some [\<lparr>ident = 1, title = ''A'', items = Some 2\<rparr>,
                       \<lparr>ident = 2, title = ''C'', items = Some 5\<rparr>]
            else if name = ''TV'' then Some [\<lparr>ident = 3, title = ''D'', items = Some 4\<rparr>]
            else None),
         promote = (\<lambda>c. True), demote = (\<lambda>c. True)\<rparr>,
      today = 738886, weekday = ''Monday'', hhmm = ''12:00'', record_day = 738886,
      parse_date = (\<lambda>s. if s = ''2024-01-05'' then Some 738890 else None),
      format_date = (\<lambda>d. if d = 738889 then ''2024-01-04'' else ''other''),
      rng = (\<lambda>k i. 0), elapsed = 2\<rparr>"

text \<open>
  In the second, each library has quota 1 and one collection, both titled Action; the
  server refuses to pin the one of Movies.
\<close>

definition pin_config :: config where
  "pin_config =
     \<lparr>libraries = [''Movies'', ''TV''], minimum_items = Some 1, exclusion_days = Some 3,
      always_pin_new_episodes = Some False, pinning_interval = Some 30,
      default_limits = [],
      libraries_settings =
        [(''Movies'', \<lparr>time_blocks = [], default_limit = Some 1\<rparr>),
         (''TV'', \<lparr>time_blocks = [], default_limit = Some 1\<rparr>)]\<rparr>"

definition pin_world :: env where
  "pin_world =
     \<lparr>server =
        \<lparr>collections_of = (\<lambda>name.
            if name = ''Movies'' then Some [\<lparr>ident = 1, title = ''Action'', items = Some 2\<rparr>]
            else if name = ''TV'' then Some [\<lparr>ident = 2, title = ''Action'', items = Some 4\<rparr>]
            else None),
         promote = (\<lambda>c. ident c \<noteq> 1), demote = (\<lambda>c. True)\<rparr>,
      today = 738886, weekday = ''Monday'', hhmm = ''12:00'', record_day = 738886,
      parse_date = (\<lambda>s. if s = ''2024-01-05'' then Some 738890 else None),
      format_date = (\<lambda>d. if d = 738889 then ''2024-01-04'' else ''other''),
      rng = (\<lambda>k i. 0), elapsed = 2\<rparr>"

text \<open>In the third there is no library, and the interval is \<open>minutes\<close> minutes.\<close>

definition sleep_config :: "int \<Rightarrow> config" where
  "sleep_config minutes =
     \<lparr>libraries = [], minimum_items = Some 1, exclusion_days = Some 3,
      always_pin_new_episodes = Some False, pinning_interval = Some minutes,
      default_limits = [], libraries_settings = []\<rparr>"

text \<open>
  The fourth is a configuration as the settings tab saves it: the default limit of a
  library is stored under \<^verbatim>\<open>default_limits\<close>, and \<^verbatim>\<open>libraries_settings\<close> has no
  \<^verbatim>\<open>default_limit\<close>.
\<close>

definition saved_config :: config where
  "saved_config =
     \<lparr>libraries = [''Movies''], minimum_items = Some 1, exclusion_days = Some 3,
      always_pin_new_episodes = Some False, pinning_interval = Some 30,
      default_limits = [(''Movies'', 3)], libraries_settings = []\<rparr>"

text \<open>
  A server whose TV library has two collections titled New Episodes up to case, whose
  Anime library cannot be listed, and which refuses every pin.
\<close>

definition episodes_server :: plex where
  "episodes_server =
     \<lparr>collections_of = (\<lambda>name.
         if name = ''TV''
         then Some [\<lparr>ident = 1, title = ''Drama'', items = Some 3\<rparr>,
                    \<lparr>ident = 2, title = ''NEW Episodes'', items = Some 7\<rparr>,
                    \<lparr>ident = 3, title = ''New Episodes'', items = Some 9\<rparr>]
         else None),
      promote = (\<lambda>c. False), demote = (\<lambda>c. True)\<rparr>"

section \<open>Lemmas on the steps of a pass\<close>

lemma clean_filter:
  "\<forall>(name, d) \<in> set M. strptime d \<noteq> None \<Longrightarrow>
   clean strptime D M = Inr (filter (\<lambda>(name, d). the (strptime d) > D) M)"
  by (induction M) auto

lemma clean_Nil: "clean p d [] = Inr []"
  by simp

lemma valid_collections_eligible:
  "valid_collections m u x cs = Inr valid \<Longrightarrow> valid = eligible m u x cs"
  by (induction cs arbitrary: valid) (auto simp: eligible_def split: option.splits sum.splits)

lemma valid_collections_defined:
  "\<forall>c \<in> set cs. items c \<noteq> None \<Longrightarrow> valid_collections m u x cs = Inr (eligible m u x cs)"
  by (induction cs) (auto simp: eligible_def)

lemma valid_collections_Inr_items:
  "valid_collections m u x cs = Inr valid \<Longrightarrow> \<forall>c \<in> set cs. items c \<noteq> None"
  by (induction cs arbitrary: valid) (auto split: option.splits sum.splits)

lemma sample_loop_length: "k \<le> length pool \<Longrightarrow> length (sample_loop r i pool k) = k"
  by (induction k arbitrary: i pool) (auto simp: Let_def)

lemma mset_pool_step:
  assumes "j < length pool"
  shows "mset (butlast (pool[j := last pool])) = mset pool - {#pool ! j#}"
proof -
  from assms have "pool \<noteq> []" by auto
  then obtain ys y where p: "pool = ys @ [y]"
    using rev_exhaust by blast
  show ?thesis
  proof (cases "j = length ys")
    case True
    with p show ?thesis by simp
  next
    case False
    with assms p have j: "j < length ys" by simp
    have "butlast (pool[j := last pool]) = ys[j := y]"
      using p j by (simp add: list_update_append)
    moreover have "mset (ys[j := y]) = add_mset y (mset ys - {#ys ! j#})"
      using j by (simp add: mset_update)
    moreover have "ys ! j \<in># mset ys" using j by simp
    ultimately show ?thesis using p j
      by (simp add: nth_append)
  qed
qed

lemma sample_loop_mset:
  "k \<le> length pool \<Longrightarrow> mset (sample_loop r i pool k) \<subseteq># mset pool"
proof (induction k arbitrary: i pool)
  case 0
  then show ?case by simp
next
  case (Suc k)
  define j where "j = r i mod length pool"
  define pool' where "pool' = butlast (pool[j := last pool])"
  from Suc.prems have "0 < length pool" by (cases pool) auto
  then have j: "j < length pool" by (simp add: j_def)
  have "k \<le> length pool'" using Suc.prems by (simp add: pool'_def)
  then have "mset (sample_loop r (Suc i) pool' k) \<subseteq># mset pool'" by (rule Suc.IH)
  then have "mset (sample_loop r (Suc i) pool' k) \<subseteq># mset pool - {#pool ! j#}"
    using mset_pool_step [OF j] by (simp add: pool'_def)
  moreover have "pool ! j \<in># mset pool" using j by simp
  ultimately have "add_mset (pool ! j) (mset (sample_loop r (Suc i) pool' k)) \<subseteq># mset pool"
    by (simp add: insert_subset_eq_iff)
  then show ?case by (simp add: Let_def j_def pool'_def)
qed

lemma sub_mset_distinct:
  assumes "mset xs \<subseteq># mset ys" and "distinct ys"
  shows "distinct xs"
proof -
  have "count (mset xs) a = (if a \<in> set xs then 1 else 0)" for a
  proof (cases "a \<in> set xs")
    case True
    then have lo: "count (mset xs) a \<noteq> 0" by simp
    have le: "count (mset xs) a \<le> count (mset ys) a"
      using assms(1) by (rule mset_subset_eq_count)
    have hi: "count (mset ys) a \<le> 1"
      using assms(2) by (simp add: distinct_count_atmost_1)
    from lo le hi have "count (mset xs) a = 1" by arith
    with True show ?thesis by (simp only: if_True)
  next
    case False
    then show ?thesis by simp
  qed
  then show ?thesis by (simp add: distinct_count_atmost_1)
qed

lemma sample_Inr:
  assumes "sample r pop k = Inr xs"
  shows "int (length xs) = k \<and> mset xs \<subseteq># mset pop"
proof -
  from assms have k: "0 \<le> k" "k \<le> int (length pop)" and xs: "xs = sample_loop r 0 pop (nat k)"
    by (auto simp: sample_def split: if_splits)
  from k have "nat k \<le> length pop" by simp
  then show ?thesis using xs k sample_loop_length [of "nat k" pop r 0] sample_loop_mset [of "nat k" pop r 0]
    by simp
qed

lemma select_selected_sub:
  assumes "select r m u x Q cs = Inr sel"
  shows "mset (selected sel) \<subseteq># mset (eligible m u x cs)"
proof -
  from assms obtain valid where v: "valid_collections m u x cs = Inr valid"
    by (auto simp: select_def split: sum.splits)
  then have e: "valid = eligible m u x cs" by (rule valid_collections_eligible)
  show ?thesis
  proof (cases sel)
    case (ToPin xs)
    with assms v have "sample r valid (min (int (length valid)) Q) = Inr xs"
      by (auto simp: select_def Let_def split: if_splits sum.splits)
    then have "mset xs \<subseteq># mset valid" using sample_Inr by blast
    with ToPin e show ?thesis by simp
  qed simp_all
qed

lemma select_reset_iff:
  "select r m u x lim cs = Inr ResetNeeded
     \<longleftrightarrow> (\<forall>c \<in> set cs. items c \<noteq> None) \<and> int (length (eligible m u x cs)) < lim"
proof
  assume a: "select r m u x lim cs = Inr ResetNeeded"
  then obtain valid where v: "valid_collections m u x cs = Inr valid"
    by (auto simp: select_def split: sum.splits)
  with a have "int (length valid) < lim"
    by (auto simp: select_def Let_def split: if_splits sum.splits)
  with v show "(\<forall>c \<in> set cs. items c \<noteq> None) \<and> int (length (eligible m u x cs)) < lim"
    using valid_collections_Inr_items [OF v] valid_collections_eligible [OF v] by simp
next
  assume "(\<forall>c \<in> set cs. items c \<noteq> None) \<and> int (length (eligible m u x cs)) < lim"
  then show "select r m u x lim cs = Inr ResetNeeded"
    by (simp add: select_def valid_collections_defined)
qed

lemma process_library_reset_iff:
  "process_library cfg w m u x k l = Inr ResetNeeded
     \<longleftrightarrow> (\<exists>cs lim. collections_of (server w) l = Some cs
            \<and> final_limit cfg l (weekday w) (hhmm w) = Inr lim
            \<and> (\<forall>c \<in> set cs. items c \<noteq> None)
            \<and> int (length (eligible m u x cs)) < lim)"
  by (auto simp: process_library_def select_reset_iff split: option.splits sum.splits)

lemma library_loop_reset_step:
  "process_library cfg w m u x k l \<noteq> Inr ResetNeeded \<Longrightarrow>
   fst (snd (library_loop cfg w m u x k (l # libs)))
     = fst (snd (library_loop cfg w m u x (Suc k) libs))"
  by (auto split: sum.splits selection.splits prod.splits)

lemma library_loop_reset_some:
  "fst (snd (library_loop cfg w m u x k libs))
     \<longleftrightarrow> (\<exists>i < length libs. process_library cfg w m u x (k + i) (libs ! i) = Inr ResetNeeded)"
proof (induction libs arbitrary: k)
  case Nil
  then show ?case by simp
next
  case (Cons l libs)
  show ?case
  proof (cases "process_library cfg w m u x k l = Inr ResetNeeded")
    case True
    then have "fst (snd (library_loop cfg w m u x k (l # libs)))" by simp
    moreover from True have "\<exists>i < length (l # libs).
        process_library cfg w m u x (k + i) ((l # libs) ! i) = Inr ResetNeeded"
      by (intro exI [of _ 0]) simp
    ultimately show ?thesis by blast
  next
    case False
    have "(\<exists>i < length (l # libs). process_library cfg w m u x (k + i) ((l # libs) ! i) = Inr ResetNeeded)
        \<longleftrightarrow> (\<exists>i < length libs. process_library cfg w m u x (Suc k + i) (libs ! i) = Inr ResetNeeded)"
      (is "?L \<longleftrightarrow> ?R")
    proof
      assume ?L
      then obtain i where i: "i < length (l # libs)"
        "process_library cfg w m u x (k + i) ((l # libs) ! i) = Inr ResetNeeded" by blast
      with False obtain j where "i = Suc j" by (cases i) auto
      with i show ?R by (intro exI [of _ j]) simp
    next
      assume ?R
      then obtain j where "j < length libs"
        "process_library cfg w m u x (Suc k + j) (libs ! j) = Inr ResetNeeded" by blast
      then show ?L by (intro exI [of _ "Suc j"]) simp
    qed
    with library_loop_reset_step [OF False, of libs] Cons.IH [of "Suc k"] show ?thesis
      by simp
  qed
qed

lemma library_loop_reset_iff:
  "fst (snd (library_loop cfg w m u x k libs))
     \<longleftrightarrow> (\<exists>l \<in> set libs. \<exists>cs lim. collections_of (server w) l = Some cs
            \<and> final_limit cfg l (weekday w) (hhmm w) = Inr lim
            \<and> (\<forall>c \<in> set cs. items c \<noteq> None)
            \<and> int (length (eligible m u x cs)) < lim)"
  unfolding library_loop_reset_some process_library_reset_iff
  by (metis in_set_conv_nth)

lemma library_loop_stops:
  assumes "process_library cfg w m u x (k + length pre) l = Inr ResetNeeded"
  shows "library_loop cfg w m u x k (pre @ l # post) = library_loop cfg w m u x k (pre @ [l])"
  using assms
proof (induction pre arbitrary: k)
  case Nil
  then show ?case by simp
next
  case (Cons p pre)
  from Cons.prems have "process_library cfg w m u x (Suc k + length pre) l = Inr ResetNeeded"
    by simp
  then have "library_loop cfg w m u x (Suc k) (pre @ l # post)
      = library_loop cfg w m u x (Suc k) (pre @ [l])"
    by (rule Cons.IH)
  then show ?case
    by (simp split: sum.splits selection.splits)
qed

lemma pass_reset:
  assumes "clean (parse_date w) (today w) (used st) = Inr cleaned"
    and "library_loop cfg w (the_default 1 (minimum_items cfg)) cleaned exem 0 (libraries cfg)
           = (pinned, True, ev3)"
  shows "pass cfg gui exem w st
           = Inr (Restarted,
                  \<lparr>used = [], used_file = Holds [], clock = clock st + elapsed w\<rparr>,
                  handle_new_episodes_pinning (server w) (libraries cfg)
                      (the_default False (always_pin_new_episodes cfg))
                    @ unpin_collections (server w) (libraries cfg)
                        (the_default False (always_pin_new_episodes cfg))
                    @ ev3)"
  using assms
  by (simp add: pass_def Let_def load_used_collections_def reset_exclusion_list_file_def)

lemma pass_no_reset:
  assumes "clean (parse_date w) (today w) (used st) = Inr cleaned"
    and "library_loop cfg w (the_default 1 (minimum_items cfg)) cleaned exem 0 (libraries cfg)
           = (pinned, False, ev3)"
  shows "pass cfg gui exem w st \<noteq> Inr (Restarted, st', ev)"
  using assms
  by (auto simp: pass_def Let_def split: sum.splits if_splits)

lemma pass_slept_clock:
  assumes "pass cfg gui exem w st = Inr (Slept, st', ev)"
  shows "clock st' = clock st + elapsed w + nat (the_default 30 (pinning_interval cfg) * 60)"
proof -
  obtain pinned rn ev3 where ll: "library_loop cfg w (the_default 1 (minimum_items cfg))
      (projr (clean (parse_date w) (today w) (used st))) exem 0 (libraries cfg) = (pinned, rn, ev3)"
    by (metis prod_cases3)
  from assms ll show ?thesis
    by (auto simp: pass_def Let_def sleep_def split: sum.splits if_splits)
qed

lemma pin_loop_pinned: "fst (pin_loop srv cs) = filter (promote srv) cs"
  by (induction cs) (auto split: prod.splits)

lemma pin_loop_attempts: "c \<in> set cs \<Longrightarrow> Promote c \<in> set (snd (pin_loop srv cs))"
  by (induction cs) (auto split: prod.splits)

lemma pin_loop_logs:
  "c \<in> set cs \<Longrightarrow> \<not> promote srv c \<Longrightarrow> ErrorPinning (title c) \<in> set (snd (pin_loop srv cs))"
  by (induction cs) (auto split: prod.splits)

lemma library_loop_pinned:
  "c \<in> set (fst (library_loop cfg w m u x k libs)) \<Longrightarrow> promote (server w) c"
proof (induction libs arbitrary: k)
  case Nil
  then show ?case by simp
next
  case (Cons l libs)
  show ?case
  proof (cases "process_library cfg w m u x k l")
    case (Inl e)
    with Cons.prems have "c \<in> set (fst (library_loop cfg w m u x (Suc k) libs))"
      by (simp split: prod.splits)
    then show ?thesis by (rule Cons.IH)
  next
    case (Inr sel)
    show ?thesis
    proof (cases sel)
      case ResetNeeded
      with Inr Cons.prems show ?thesis by simp
    next
      case NoValid
      with Inr Cons.prems have "c \<in> set (fst (library_loop cfg w m u x (Suc k) libs))"
        by simp
      then show ?thesis by (rule Cons.IH)
    next
      case (ToPin cs)
      with Inr Cons.prems have "c \<in> set (fst (pin_loop (server w) cs))
          \<or> c \<in> set (fst (library_loop cfg w m u x (Suc k) libs))"
        by (auto split: prod.splits)
      then show ?thesis
      proof
        assume "c \<in> set (fst (pin_loop (server w) cs))"
        then show ?thesis by (simp add: pin_loop_pinned)
      next
        assume "c \<in> set (fst (library_loop cfg w m u x (Suc k) libs))"
        then show ?thesis by (rule Cons.IH)
      qed
    qed
  qed
qed

lemma dict_in_dict_set: "dict_in t (dict_set k v d) \<longleftrightarrow> t = k \<or> dict_in t d"
  by (induction d) (auto simp: dict_in_def)

lemma log_and_update_keys:
  "log_and_update_exclusion_list f d pinned u days = Inr u' \<Longrightarrow>
   dict_in t u' \<longleftrightarrow> dict_in t u \<or> t \<in> title ` set pinned"
proof (induction pinned arbitrary: u)
  case Nil
  then show ?case by simp
next
  case (Cons c pinned)
  from Cons.prems obtain e where e: "date_add d days = Inr e"
    and r: "log_and_update_exclusion_list f d pinned (dict_set (title c) (f e) u) days = Inr u'"
    by (auto split: sum.splits)
  from Cons.IH [OF r] show ?case by (auto simp: dict_in_dict_set)
qed

lemma new_episodes_loop_calls:
  "filter is_call (new_episodes_loop srv flag cs)
     = (case find (\<lambda>c. lower (title c) = ''new episodes'') cs of
          None \<Rightarrow> []
        | Some c \<Rightarrow> [if flag then Promote c else Demote c])"
  by (induction cs) auto

lemma first_block_no_match:
  "\<forall>(block, details) \<in> set blocks.
      \<exists>s e. start_time details = Some s \<and> end_time details = Some e \<and> \<not> (s \<le> t \<and> t < e) \<Longrightarrow>
   first_block t q blocks = Inr (''Default'', q)"
  by (induction blocks) auto

lemma resolver_default:
  assumes "dict_get (time_blocks (settings_of cfg l)) day (Blocks []) = NotADict
         \<or> (\<exists>blocks. dict_get (time_blocks (settings_of cfg l)) day (Blocks []) = Blocks blocks
              \<and> (\<forall>(block, details) \<in> set blocks.
                    \<exists>s e. start_time details = Some s \<and> end_time details = Some e
                          \<and> \<not> (s \<le> t \<and> t < e)))"
  shows "get_current_time_block cfg l day t = Inr (''Default'', dict_get (default_limits cfg) l 5)"
  using assms by (auto simp: get_current_time_block_def Let_def first_block_no_match)

lemma final_limit_on_default:
  "get_current_time_block cfg l day t = Inr (''Default'', q) \<Longrightarrow>
   final_limit cfg l day t = Inr (the_default 5 (default_limit (settings_of cfg l)))"
  by (simp add: final_limit_def)

section \<open>The selection step\<close>

text \<open>
  Claim C1. Let \<open>E\<close> be the eligible set of a collection list whose item counts can all
  be read, and \<open>Q \<ge> 0\<close> the quota. When \<open>Q \<le> |E|\<close> the selection step does not ask for
  a reset and selects exactly \<open>Q\<close> collections, drawn from \<open>E\<close> without repetition (as a
  multiset the selection is contained in \<open>E\<close>, so it is repetition free when the
  collections of the library are distinct objects), whatever the random source draws.
  When \<open>|E| < Q\<close> the step answers \<open>ResetNeeded\<close>, which carries no selection.
\<close>

theorem select_quota:
  assumes "\<forall>c \<in> set cs. items c \<noteq> None" and "0 \<le> Q"
  shows "(Q \<le> int (length (eligible min_items excl exem cs)) \<longrightarrow>
            (\<exists>sel. select rnd min_items excl exem Q cs = Inr sel \<and> sel \<noteq> ResetNeeded
               \<and> int (length (selected sel)) = Q
               \<and> mset (selected sel) \<subseteq># mset (eligible min_items excl exem cs)
               \<and> (distinct cs \<longrightarrow> distinct (selected sel))))
       \<and> (int (length (eligible min_items excl exem cs)) < Q \<longrightarrow>
            select rnd min_items excl exem Q cs = Inr ResetNeeded
            \<and> selected ResetNeeded = [])"
proof (intro conjI impI)
  let ?E = "eligible min_items excl exem cs"
  have v: "valid_collections min_items excl exem cs = Inr ?E"
    using assms(1) by (rule valid_collections_defined)
  {
    assume "int (length ?E) < Q"
    with v show "select rnd min_items excl exem Q cs = Inr ResetNeeded"
      by (simp add: select_def)
  }
  show "selected ResetNeeded = []" by simp
  assume q: "Q \<le> int (length ?E)"
  show "\<exists>sel. select rnd min_items excl exem Q cs = Inr sel \<and> sel \<noteq> ResetNeeded
               \<and> int (length (selected sel)) = Q
               \<and> mset (selected sel) \<subseteq># mset ?E
               \<and> (distinct cs \<longrightarrow> distinct (selected sel))"
  proof (cases "?E = []")
    case True
    with q assms(2) have "Q = 0" by simp
    with True v have "select rnd min_items excl exem Q cs = Inr NoValid"
      by (simp add: select_def)
    with \<open>Q = 0\<close> show ?thesis by simp
  next
    case False
    from q have m: "min (int (length ?E)) Q = Q" by simp
    from q assms(2) obtain xs where s: "sample rnd ?E Q = Inr xs"
      by (auto simp: sample_def)
    with v False q m have sel: "select rnd min_items excl exem Q cs = Inr (ToPin xs)"
      by (simp add: select_def Let_def)
    from s have l: "int (length xs) = Q" and sub: "mset xs \<subseteq># mset ?E"
      using sample_Inr by blast+
    have "distinct xs" if "distinct cs"
    proof -
      from that have "distinct ?E" by (simp add: eligible_def)
      with sub show ?thesis by (rule sub_mset_distinct)
    qed
    with sel l sub show ?thesis by simp
  qed
qed

theorem select_quota_witness:
  "map items [\<lparr>ident = 1, title = ''A'', items = Some 2\<rparr>,
              \<lparr>ident = 2, title = ''B'', items = Some 0\<rparr>,
              \<lparr>ident = 3, title = ''C'', items = Some 5\<rparr>] = [Some 2, Some 0, Some 5]
   \<and> (0::int) \<le> 2
   \<and> select (\<lambda>i. 0) 1 [] [] 2
        [\<lparr>ident = 1, title = ''A'', items = Some 2\<rparr>,
         \<lparr>ident = 2, title = ''B'', items = Some 0\<rparr>,
         \<lparr>ident = 3, title = ''C'', items = Some 5\<rparr>]
       = Inr (ToPin [\<lparr>ident = 1, title = ''A'', items = Some 2\<rparr>,
                     \<lparr>ident = 3, title = ''C'', items = Some 5\<rparr>])
   \<and> select (\<lambda>i. 0) 1 [] [] 3
        [\<lparr>ident = 1, title = ''A'', items = Some 2\<rparr>,
         \<lparr>ident = 2, title = ''B'', items = Some 0\<rparr>,
         \<lparr>ident = 3, title = ''C'', items = Some 5\<rparr>]
       = Inr ResetNeeded"
proof -
  let ?cs = "[\<lparr>ident = 1, title = ''A'', items = Some 2\<rparr>,
              \<lparr>ident = 2, title = ''B'', items = Some 0\<rparr>,
              \<lparr>ident = 3, title = ''C'', items = Some 5\<rparr>]"
  have h1: "\<forall>c \<in> set ?cs. items c \<noteq> None" by simp
  have h2: "(0::int) \<le> 2" by simp
  have h3: "(0::int) \<le> 3" by simp
  have e: "eligible 1 [] [] ?cs = [\<lparr>ident = 1, title = ''A'', items = Some 2\<rparr>,
                                  \<lparr>ident = 3, title = ''C'', items = Some 5\<rparr>]"
    by (simp add: eligible_def dict_in_def)
  have s: "select (\<lambda>i. 0) 1 [] [] 2 ?cs
             = Inr (ToPin [\<lparr>ident = 1, title = ''A'', items = Some 2\<rparr>,
                           \<lparr>ident = 3, title = ''C'', items = Some 5\<rparr>])"
    by code_simp
  from select_quota [OF h1 h3, of 1 "[]" "[]" "\<lambda>i. 0"] e
  have "select (\<lambda>i. 0) 1 [] [] 3 ?cs = Inr ResetNeeded" by simp
  moreover from select_quota [OF h1 h2, of 1 "[]" "[]" "\<lambda>i. 0"] e s
  have "int (length (selected (ToPin [\<lparr>ident = 1, title = ''A'', items = Some 2\<rparr>,
                           \<lparr>ident = 3, title = ''C'', items = Some 5\<rparr>]))) = 2" by simp
  ultimately show ?thesis using h2 s by simp
qed

text \<open>
  Claim C2. Whatever the order in which the collections of a library are listed (\<open>cs'\<close>
  is any permutation of \<open>cs\<close>), a collection in the result of the selection step is one
  of the listed collections, and its title is neither a key of the exclusion map nor a
  member of the exemption list passed to the step.
\<close>

theorem select_never_excluded:
  assumes "mset cs' = mset cs"
    and "select rnd min_items excl exem Q cs' = Inr sel"
    and "c \<in> set (selected sel)"
  shows "c \<in> set cs \<and> \<not> dict_in (title c) excl \<and> title c \<notin> set exem"
proof -
  have "mset (selected sel) \<subseteq># mset (eligible min_items excl exem cs')"
    using assms(2) by (rule select_selected_sub)
  then have "set (selected sel) \<subseteq> set (eligible min_items excl exem cs')"
    by (metis set_mset_mono set_mset_mset)
  with assms(3) have "c \<in> set (eligible min_items excl exem cs')" by blast
  moreover have "set cs' = set cs" using assms(1) by (rule mset_eq_setD)
  ultimately show ?thesis by (auto simp: eligible_def)
qed

theorem select_never_excluded_witness:
  "mset [\<lparr>ident = 3, title = ''C'', items = Some 5\<rparr>,
         \<lparr>ident = 1, title = ''A'', items = Some 2\<rparr>,
         \<lparr>ident = 2, title = ''B'', items = Some 4\<rparr>]
     = mset [\<lparr>ident = 1, title = ''A'', items = Some 2\<rparr>,
             \<lparr>ident = 2, title = ''B'', items = Some 4\<rparr>,
             \<lparr>ident = 3, title = ''C'', items = Some 5\<rparr>]
   \<and> select (\<lambda>i. 0) 1 [(''A'', ''2024-01-05'')] [''B''] 1
        [\<lparr>ident = 3, title = ''C'', items = Some 5\<rparr>,
         \<lparr>ident = 1, title = ''A'', items = Some 2\<rparr>,
         \<lparr>ident = 2, title = ''B'', items = Some 4\<rparr>]
       = Inr (ToPin [\<lparr>ident = 3, title = ''C'', items = Some 5\<rparr>])
   \<and> \<not> dict_in (title \<lparr>ident = 3, title = ''C'', items = Some 5\<rparr>) [(''A'', ''2024-01-05'')]
   \<and> title \<lparr>ident = 3, title = ''C'', items = Some 5\<rparr> \<notin> set [''B'']"
proof -
  let ?c = "\<lparr>ident = 3, title = ''C'', items = Some 5\<rparr>"
  let ?cs' = "[?c, \<lparr>ident = 1, title = ''A'', items = Some 2\<rparr>,
               \<lparr>ident = 2, title = ''B'', items = Some 4\<rparr>]"
  let ?cs = "[\<lparr>ident = 1, title = ''A'', items = Some 2\<rparr>,
              \<lparr>ident = 2, title = ''B'', items = Some 4\<rparr>, ?c]"
  have h1: "mset ?cs' = mset ?cs" by simp
  have h2: "select (\<lambda>i. 0) 1 [(''A'', ''2024-01-05'')] [''B''] 1 ?cs' = Inr (ToPin [?c])"
    by code_simp
  have h3: "?c \<in> set (selected (ToPin [?c]))" by simp
  from select_never_excluded [OF h1 h2 h3] h1 h2 show ?thesis by simp
qed

section \<open>The cleaning step\<close>

text \<open>
  Claim C3. On a cooldown map whose expiry strings all parse as dates, the cleaning step
  returns exactly the entries whose expiry date is strictly after the current date, in
  their order, and cleaning the result again with the same date returns it unchanged.
\<close>

theorem clean_exact_idempotent:
  assumes "\<forall>(name, d) \<in> set M. strptime d \<noteq> None"
  shows "clean strptime D M = Inr (filter (\<lambda>(name, d). \<exists>e. strptime d = Some e \<and> e > D) M)
       \<and> clean strptime D (filter (\<lambda>(name, d). \<exists>e. strptime d = Some e \<and> e > D) M)
           = Inr (filter (\<lambda>(name, d). \<exists>e. strptime d = Some e \<and> e > D) M)"
proof -
  let ?P = "\<lambda>(name, d). \<exists>e. strptime d = Some e \<and> e > D"
  have eq: "filter (\<lambda>(name, d). the (strptime d) > D) N = filter ?P N"
    if "\<forall>(name, d) \<in> set N. strptime d \<noteq> None" for N
    using that by (intro filter_cong) auto
  have 1: "clean strptime D M = Inr (filter ?P M)"
    using clean_filter [OF assms, of D] eq [OF assms] by simp
  have p: "\<forall>(name, d) \<in> set (filter ?P M). strptime d \<noteq> None" by auto
  have "clean strptime D (filter ?P M) = Inr (filter ?P (filter ?P M))"
    using clean_filter [OF p, of D] eq [OF p] by simp
  then have 2: "clean strptime D (filter ?P M) = Inr (filter ?P M)" by simp
  from 1 2 show ?thesis by simp
qed

theorem clean_exact_idempotent_witness:
  "map ((\<lambda>s. if s = ''2024-01-05'' then Some 738890
              else if s = ''2024-01-01'' then Some (738886::int) else None) \<circ> snd)
       [(''A'', ''2024-01-05''), (''B'', ''2024-01-01'')] = [Some 738890, Some 738886]
   \<and> clean (\<lambda>s. if s = ''2024-01-05'' then Some 738890
                 else if s = ''2024-01-01'' then Some 738886 else None)
        738886 [(''A'', ''2024-01-05''), (''B'', ''2024-01-01'')]
       = Inr [(''A'', ''2024-01-05'')]
   \<and> clean (\<lambda>s. if s = ''2024-01-05'' then Some 738890
                 else if s = ''2024-01-01'' then Some 738886 else None)
        738886 [(''A'', ''2024-01-05'')]
       = Inr [(''A'', ''2024-01-05'')]"
proof -
  let ?p = "\<lambda>s. if s = ''2024-01-05'' then Some 738890
                else if s = ''2024-01-01'' then Some (738886::int) else None"
  let ?M = "[(''A'', ''2024-01-05''), (''B'', ''2024-01-01'')]"
  have h: "\<forall>(name, d) \<in> set ?M. ?p d \<noteq> None" by simp
  from clean_exact_idempotent [OF h, of 738886] show ?thesis by simp
qed

section \<open>Reset and retry\<close>

text \<open>
  Claim C4. Let the exclusions be cleaned, and let some configured library \<open>l\<close>, with its
  collections listed and counted and its quota resolved, have an eligible set smaller
  than the quota. Then the library loop sets \<open>reset_needed\<close> and its result is the one it
  has on the list cut after \<open>l\<close>, so no library after \<open>l\<close> is looked at; and the pass
  ends as \<open>Restarted\<close>, with the exclusion dict and its file empty, and with no sleep:
  the clock has moved on by the work of the pass only.
\<close>

theorem insufficient_library_resets:
  assumes "clean (parse_date w) (today w) (used st) = Inr cleaned"
    and "libraries cfg = pre @ l # post"
    and "collections_of (server w) l = Some cs"
    and "final_limit cfg l (weekday w) (hhmm w) = Inr lim"
    and "\<forall>c \<in> set cs. items c \<noteq> None"
    and "int (length (eligible (the_default 1 (minimum_items cfg)) cleaned exem cs)) < lim"
  shows "\<exists>pinned ev3.
           library_loop cfg w (the_default 1 (minimum_items cfg)) cleaned exem 0 (pre @ l # post)
             = (pinned, True, ev3)
         \<and> library_loop cfg w (the_default 1 (minimum_items cfg)) cleaned exem 0 (pre @ [l])
             = (pinned, True, ev3)
         \<and> pass cfg gui exem w st
             = Inr (Restarted,
                    \<lparr>used = [], used_file = Holds [], clock = clock st + elapsed w\<rparr>,
                    handle_new_episodes_pinning (server w) (libraries cfg)
                        (the_default False (always_pin_new_episodes cfg))
                      @ unpin_collections (server w) (libraries cfg)
                          (the_default False (always_pin_new_episodes cfg))
                      @ ev3)"
proof -
  let ?m = "the_default 1 (minimum_items cfg)"
  have r: "process_library cfg w ?m cleaned exem (0 + length pre) l = Inr ResetNeeded"
    using assms(3-6) by (simp add: process_library_reset_iff)
  then have stop: "library_loop cfg w ?m cleaned exem 0 (pre @ l # post)
      = library_loop cfg w ?m cleaned exem 0 (pre @ [l])"
    by (rule library_loop_stops)
  have "l \<in> set (pre @ l # post)" by simp
  then have "fst (snd (library_loop cfg w ?m cleaned exem 0 (pre @ l # post)))"
    using assms(3-6) unfolding library_loop_reset_iff by blast
  then obtain pinned ev3 where
    ll: "library_loop cfg w ?m cleaned exem 0 (pre @ l # post) = (pinned, True, ev3)"
    by (cases "library_loop cfg w ?m cleaned exem 0 (pre @ l # post)") auto
  with assms(2) have "library_loop cfg w ?m cleaned exem 0 (libraries cfg) = (pinned, True, ev3)"
    by simp
  from pass_reset [OF assms(1) this] ll stop show ?thesis by simp
qed

theorem insufficient_library_resets_witness:
  "clean (parse_date reset_world) (today reset_world)
       (used \<lparr>used = [(''A'', ''2024-01-05'')], used_file = Holds [(''A'', ''2024-01-05'')],
              clock = 0\<rparr>)
     = Inr [(''A'', ''2024-01-05'')]
   \<and> libraries reset_config = [] @ ''Movies'' # [''TV'']
   \<and> collections_of (server reset_world) ''Movies''
       = Some [\<lparr>ident = 1, title = ''A'', items = Some 2\<rparr>,
               \<lparr>ident = 2, title = ''C'', items = Some 5\<rparr>]
   \<and> final_limit reset_config ''Movies'' (weekday reset_world) (hhmm reset_world) = Inr 5
   \<and> eligible (the_default 1 (minimum_items reset_config)) [(''A'', ''2024-01-05'')] []
         [\<lparr>ident = 1, title = ''A'', items = Some 2\<rparr>,
          \<lparr>ident = 2, title = ''C'', items = Some 5\<rparr>]
       = [\<lparr>ident = 2, title = ''C'', items = Some 5\<rparr>]
   \<and> pass reset_config False [] reset_world
         \<lparr>used = [(''A'', ''2024-01-05'')], used_file = Holds [(''A'', ''2024-01-05'')],
          clock = 0\<rparr>
       = Inr (Restarted, \<lparr>used = [], used_file = Holds [], clock = 2\<rparr>,
              [Demote \<lparr>ident = 1, title = ''A'', items = Some 2\<rparr>,
               Demote \<lparr>ident = 2, title = ''C'', items = Some 5\<rparr>,
               Demote \<lparr>ident = 3, title = ''D'', items = Some 4\<rparr>,
               NotEnough ''Movies''])"
proof -
  let ?st = "\<lparr>used = [(''A'', ''2024-01-05'')], used_file = Holds [(''A'', ''2024-01-05'')],
              clock = 0\<rparr>"
  let ?cs = "[\<lparr>ident = 1, title = ''A'', items = Some 2\<rparr>,
              \<lparr>ident = 2, title = ''C'', items = Some 5\<rparr>]"
  have h1: "clean (parse_date reset_world) (today reset_world) (used ?st)
              = Inr [(''A'', ''2024-01-05'')]"
    by (simp add: reset_world_def)
  have h2: "libraries reset_config = [] @ ''Movies'' # [''TV'']"
    by (simp add: reset_config_def)
  have h3: "collections_of (server reset_world) ''Movies'' = Some ?cs"
    by (simp add: reset_world_def)
  have h4: "final_limit reset_config ''Movies'' (weekday reset_world) (hhmm reset_world) = Inr 5"
    by (simp add: final_limit_def get_current_time_block_def settings_of_def dict_get_def
          reset_config_def)
  have h5: "\<forall>c \<in> set ?cs. items c \<noteq> None" by simp
  have e: "eligible (the_default 1 (minimum_items reset_config)) [(''A'', ''2024-01-05'')] [] ?cs
             = [\<lparr>ident = 2, title = ''C'', items = Some 5\<rparr>]"
    by (simp add: eligible_def dict_in_def reset_config_def)
  then have h6: "int (length (eligible (the_default 1 (minimum_items reset_config))
                   [(''A'', ''2024-01-05'')] [] ?cs)) < 5"
    by simp
  have ev: "library_loop reset_config reset_world (the_default 1 (minimum_items reset_config))
              [(''A'', ''2024-01-05'')] [] 0 ([] @ [''Movies''])
            = ([], True, [NotEnough ''Movies''])"
    by code_simp
  have u: "handle_new_episodes_pinning (server reset_world) (libraries reset_config)
               (the_default False (always_pin_new_episodes reset_config))
             @ unpin_collections (server reset_world) (libraries reset_config)
                 (the_default False (always_pin_new_episodes reset_config))
           = [Demote \<lparr>ident = 1, title = ''A'', items = Some 2\<rparr>,
              Demote \<lparr>ident = 2, title = ''C'', items = Some 5\<rparr>,
              Demote \<lparr>ident = 3, title = ''D'', items = Some 4\<rparr>]"
    by code_simp
  have c: "clock ?st + elapsed reset_world = 2" by (simp add: reset_world_def)
  from insufficient_library_resets [OF h1 h2 h3 h4 h5 h6, of False] ev u c
  have "pass reset_config False [] reset_world ?st
       = Inr (Restarted, \<lparr>used = [], used_file = Holds [], clock = 2\<rparr>,
              [Demote \<lparr>ident = 1, title = ''A'', items = Some 2\<rparr>,
               Demote \<lparr>ident = 2, title = ''C'', items = Some 5\<rparr>,
               Demote \<lparr>ident = 3, title = ''D'', items = Some 4\<rparr>,
               NotEnough ''Movies''])"
    by auto
  with h1 h2 h3 h4 e show ?thesis by simp
qed

text \<open>
  Claim C5 does not hold as stated. In the first scenario Movies has two collections
  and quota 5. The first pass resets the exclusion list; the retry pass, on the empty
  list, resets again; and after four passes the loop is still running and has not slept:
  the clock shows the eight seconds of work of the four passes.
\<close>

theorem retry_resets_again:
  "pass reset_config False [] reset_world
       \<lparr>used = [(''A'', ''2024-01-05'')], used_file = Holds [(''A'', ''2024-01-05'')], clock = 0\<rparr>
     = Inr (Restarted, \<lparr>used = [], used_file = Holds [], clock = 2\<rparr>,
            [Demote \<lparr>ident = 1, title = ''A'', items = Some 2\<rparr>,
             Demote \<lparr>ident = 2, title = ''C'', items = Some 5\<rparr>,
             Demote \<lparr>ident = 3, title = ''D'', items = Some 4\<rparr>,
             NotEnough ''Movies''])
   \<and> pass reset_config False [] reset_world \<lparr>used = [], used_file = Holds [], clock = 2\<rparr>
     = Inr (Restarted, \<lparr>used = [], used_file = Holds [], clock = 4\<rparr>,
            [Demote \<lparr>ident = 1, title = ''A'', items = Some 2\<rparr>,
             Demote \<lparr>ident = 2, title = ''C'', items = Some 5\<rparr>,
             Demote \<lparr>ident = 3, title = ''D'', items = Some 4\<rparr>,
             NotEnough ''Movies''])
   \<and> main_loop 4 reset_config False [] (\<lambda>t. False) (\<lambda>i. reset_world) 0
       \<lparr>used = [(''A'', ''2024-01-05'')], used_file = Holds [(''A'', ''2024-01-05'')], clock = 0\<rparr>
     = Running \<lparr>used = [], used_file = Holds [], clock = 8\<rparr>"
  by code_simp

text \<open>
  Claim C5, amended. A pass that starts from an empty exclusion list, as the retry pass
  after a reset does, ends in a further reset exactly when some configured library, with
  its collections listed and counted and its quota resolved, has fewer collections that
  meet the minimum item count and are not exempt than its quota. So the retry is bounded
  to one extra pass only when every library has that many collections.
\<close>

theorem retry_resets_again_iff:
  assumes "used st = []"
  shows "(\<exists>st' ev. pass cfg gui exem w st = Inr (Restarted, st', ev))
     \<longleftrightarrow> (\<exists>l \<in> set (libraries cfg). \<exists>cs lim. collections_of (server w) l = Some cs
            \<and> final_limit cfg l (weekday w) (hhmm w) = Inr lim
            \<and> (\<forall>c \<in> set cs. items c \<noteq> None)
            \<and> int (length (eligible (the_default 1 (minimum_items cfg)) [] exem cs)) < lim)"
proof -
  let ?m = "the_default 1 (minimum_items cfg)"
  have c: "clean (parse_date w) (today w) (used st) = Inr []" using assms by simp
  obtain pinned rn ev3 where
    ll: "library_loop cfg w ?m [] exem 0 (libraries cfg) = (pinned, rn, ev3)"
    by (cases "library_loop cfg w ?m [] exem 0 (libraries cfg)") auto
  have "(\<exists>st' ev. pass cfg gui exem w st = Inr (Restarted, st', ev)) \<longleftrightarrow> rn"
  proof (cases rn)
    case True
    with pass_reset [OF c, of cfg exem pinned ev3 gui] ll show ?thesis by simp
  next
    case False
    with pass_no_reset [OF c, of cfg exem pinned ev3 gui] ll show ?thesis by simp
  qed
  moreover have "rn \<longleftrightarrow> fst (snd (library_loop cfg w ?m [] exem 0 (libraries cfg)))"
    using ll by simp
  ultimately show ?thesis unfolding library_loop_reset_iff by simp
qed

theorem retry_resets_again_iff_witness:
  "used \<lparr>used = [], used_file = Holds [], clock = 0\<rparr> = []
   \<and> \<not> (\<exists>st' ev. pass pin_config False [] pin_world \<lparr>used = [], used_file = Holds [], clock = 0\<rparr>
                      = Inr (Restarted, st', ev))
   \<and> pass pin_config False [] pin_world \<lparr>used = [], used_file = Holds [], clock = 0\<rparr>
       = Inr (Slept,
              \<lparr>used = [(''Action'', ''2024-01-04'')],
               used_file = Holds [(''Action'', ''2024-01-04'')], clock = 1802\<rparr>,
              [Demote \<lparr>ident = 1, title = ''Action'', items = Some 2\<rparr>,
               Demote \<lparr>ident = 2, title = ''Action'', items = Some 4\<rparr>,
               Promote \<lparr>ident = 1, title = ''Action'', items = Some 2\<rparr>,
               ErrorPinning ''Action'',
               Promote \<lparr>ident = 2, title = ''Action'', items = Some 4\<rparr>])"
proof -
  let ?st = "\<lparr>used = [], used_file = Holds [], clock = 0\<rparr>"
  have h: "used ?st = []" by simp
  have p: "pass pin_config False [] pin_world ?st
       = Inr (Slept,
              \<lparr>used = [(''Action'', ''2024-01-04'')],
               used_file = Holds [(''Action'', ''2024-01-04'')], clock = 1802\<rparr>,
              [Demote \<lparr>ident = 1, title = ''Action'', items = Some 2\<rparr>,
               Demote \<lparr>ident = 2, title = ''Action'', items = Some 4\<rparr>,
               Promote \<lparr>ident = 1, title = ''Action'', items = Some 2\<rparr>,
               ErrorPinning ''Action'',
               Promote \<lparr>ident = 2, title = ''Action'', items = Some 4\<rparr>])"
    by code_simp
  have m: "final_limit pin_config ''Movies'' (weekday pin_world) (hhmm pin_world) = Inr 1"
    by (simp add: final_limit_def get_current_time_block_def settings_of_def dict_get_def
          pin_config_def)
  have t: "final_limit pin_config ''TV'' (weekday pin_world) (hhmm pin_world) = Inr 1"
    by (simp add: final_limit_def get_current_time_block_def settings_of_def dict_get_def
          pin_config_def)
  have "\<not> (\<exists>l \<in> set (libraries pin_config). \<exists>cs lim.
            collections_of (server pin_world) l = Some cs
            \<and> final_limit pin_config l (weekday pin_world) (hhmm pin_world) = Inr lim
            \<and> (\<forall>c \<in> set cs. items c \<noteq> None)
            \<and> int (length (eligible (the_default 1 (minimum_items pin_config)) [] [] cs)) < lim)"
    using m t by (auto simp: pin_config_def pin_world_def eligible_def dict_in_def)
  with retry_resets_again_iff [OF h, of pin_config False "[]" pin_world]
  have "\<not> (\<exists>st' ev. pass pin_config False [] pin_world ?st = Inr (Restarted, st', ev))"
    by simp
  with h p show ?thesis by simp
qed

section \<open>Cancellation and the sleep\<close>

text \<open>
  Claim C6 does not hold as stated. With no library configured the pass takes two
  seconds and then sleeps; the stop event is set at second 5, during the sleep. With an
  interval of 30 minutes the loop exits at second 1802, with an interval of 60 minutes
  at second 3602: the sleep is one call of the full interval, and the time between the
  signal and the exit grows with the configured interval.
\<close>

theorem cancel_latency_grows_with_interval:
  "\<not> (\<lambda>t. 5 \<le> t) (clock \<lparr>used = [], used_file = Holds [], clock = 0\<rparr>)
   \<and> main_loop 3 (sleep_config 30) False [] (\<lambda>t. 5 \<le> t) (\<lambda>i. reset_world) 0
         \<lparr>used = [], used_file = Holds [], clock = 0\<rparr>
       = Exited \<lparr>used = [], used_file = Holds [], clock = 1802\<rparr>
   \<and> main_loop 3 (sleep_config 60) False [] (\<lambda>t. 5 \<le> t) (\<lambda>i. reset_world) 0
         \<lparr>used = [], used_file = Holds [], clock = 0\<rparr>
       = Exited \<lparr>used = [], used_file = Holds [], clock = 3602\<rparr>"
  by code_simp

text \<open>
  Claim C6, amended. When a pass that began with the stop event clear ends in its sleep,
  and the stop event is set when the sleep returns, the loop exits before another pass
  begins; the sleep returns only after the whole configured interval, so the exit comes
  at the end of the interval, however early in the sleep the event was set.
\<close>

theorem cancel_seen_after_full_sleep:
  assumes "\<not> stop_event (clock st)"
    and "pass cfg gui exem (world i) st = Inr (Slept, st', ev)"
    and "stop_event (clock st')"
  shows "main_loop (Suc n) cfg gui exem stop_event world i st = Exited st'
       \<and> clock st' = clock st + elapsed (world i)
                        + nat (the_default 30 (pinning_interval cfg) * 60)"
proof -
  have "main_loop n cfg gui exem stop_event world (Suc i) st' = Exited st'"
    using assms(3) by (cases n) simp_all
  with assms(1,2) have "main_loop (Suc n) cfg gui exem stop_event world i st = Exited st'"
    by simp
  with pass_slept_clock [OF assms(2)] show ?thesis by simp
qed

theorem cancel_seen_after_full_sleep_witness:
  "\<not> (\<lambda>t. 5 \<le> t) (clock \<lparr>used = [], used_file = Holds [], clock = 0\<rparr>)
   \<and> pass (sleep_config 30) False [] reset_world \<lparr>used = [], used_file = Holds [], clock = 0\<rparr>
       = Inr (Slept, \<lparr>used = [], used_file = Holds [], clock = 1802\<rparr>, [])
   \<and> (\<lambda>t. 5 \<le> t) (clock \<lparr>used = [], used_file = Holds [], clock = 1802\<rparr>)
   \<and> main_loop (Suc 7) (sleep_config 30) False [] (\<lambda>t. 5 \<le> t) (\<lambda>i. reset_world) 0
         \<lparr>used = [], used_file = Holds [], clock = 0\<rparr>
       = Exited \<lparr>used = [], used_file = Holds [], clock = 1802\<rparr>"
proof -
  let ?st = "\<lparr>used = [], used_file = Holds [], clock = 0\<rparr>"
  let ?st' = "\<lparr>used = [], used_file = Holds [], clock = 1802\<rparr>"
  have h1: "\<not> (\<lambda>t. 5 \<le> t) (clock ?st)" by simp
  have h2: "pass (sleep_config 30) False [] ((\<lambda>i. reset_world) 0) ?st = Inr (Slept, ?st', [])"
    by code_simp
  have h3: "(\<lambda>t. 5 \<le> t) (clock ?st')" by simp
  from cancel_seen_after_full_sleep [OF h1 h2 h3, of 7] h1 h2 h3 show ?thesis by simp
qed

section \<open>Loading the state files\<close>

text \<open>
  Claim C7 against the code. On a state file that exists and does not parse, both loaders
  raise JSONDecodeError instead of returning the empty dict or list, and \<open>main\<close>, which
  loads both files inside its outer handler, ends there without a pass.
\<close>

theorem unparseable_state_file_crashes:
  "load_used_collections Unparseable = Inl JSONDecodeError
   \<and> load_user_exemptions Unparseable = Inl JSONDecodeError
   \<and> main n (Holds cfg) True Unparseable exemptions_f gui stop_event world start
       = Crashed JSONDecodeError
   \<and> main n (Holds cfg) True (Holds d) Unparseable gui stop_event world start
       = Crashed JSONDecodeError"
  by (simp add: load_used_collections_def load_user_exemptions_def main_def load_config_def)

section \<open>Failed pins\<close>

text \<open>
  Claim C8 does not hold as stated. In the second scenario Movies and TV each have one
  collection titled Action. The pin of the one in Movies fails and is logged, the one
  in TV is pinned, and the pass records the title Action in the exclusion dict: the
  title of the collection whose pin failed is excluded for that cycle.
\<close>

theorem failed_pin_title_recorded:
  "\<not> promote (server pin_world) \<lparr>ident = 1, title = ''Action'', items = Some 2\<rparr>
   \<and> pass pin_config False [] pin_world \<lparr>used = [], used_file = Holds [], clock = 0\<rparr>
       = Inr (Slept,
              \<lparr>used = [(''Action'', ''2024-01-04'')],
               used_file = Holds [(''Action'', ''2024-01-04'')], clock = 1802\<rparr>,
              [Demote \<lparr>ident = 1, title = ''Action'', items = Some 2\<rparr>,
               Demote \<lparr>ident = 2, title = ''Action'', items = Some 4\<rparr>,
               Promote \<lparr>ident = 1, title = ''Action'', items = Some 2\<rparr>,
               ErrorPinning ''Action'',
               Promote \<lparr>ident = 2, title = ''Action'', items = Some 4\<rparr>])
   \<and> dict_in (title \<lparr>ident = 1, title = ''Action'', items = Some 2\<rparr>)
        [(''Action'', ''2024-01-04'')]"
  by code_simp

text \<open>
  Claim C8, amended. Let the pin of collection \<open>c\<close> fail. In any pinning loop that holds
  \<open>c\<close> the failure is logged, every collection of the loop is still attempted, and the
  loop appends exactly the collections whose pin succeeds. \<open>c\<close> is not in the pinned set of
  the cycle; and after the pinned set is recorded, the title of \<open>c\<close> is a key of the
  exclusion dict exactly when it was one before, or another collection with the same
  title was pinned in the cycle.
\<close>

theorem failed_pin_skipped:
  assumes "\<not> promote (server w) c"
    and "library_loop cfg w m u x k libs = (previous_pinned, rn, ev)"
    and "log_and_update_exclusion_list f d previous_pinned u days = Inr u'"
  shows "c \<notin> set previous_pinned
       \<and> (dict_in (title c) u' \<longleftrightarrow>
            dict_in (title c) u
            \<or> (\<exists>c' \<in> set previous_pinned. title c' = title c \<and> c' \<noteq> c \<and> promote (server w) c'))
       \<and> (\<forall>cs. c \<in> set cs \<longrightarrow>
            fst (pin_loop (server w) cs) = filter (promote (server w)) cs
            \<and> ErrorPinning (title c) \<in> set (snd (pin_loop (server w) cs))
            \<and> (\<forall>c' \<in> set cs. Promote c' \<in> set (snd (pin_loop (server w) cs))))"
proof (intro conjI allI impI)
  have ok: "promote (server w) c'" if "c' \<in> set previous_pinned" for c'
    using that library_loop_pinned [of c' cfg w m u x k libs] assms(2) by simp
  with assms(1) show notin: "c \<notin> set previous_pinned" by blast
  have "dict_in (title c) u' \<longleftrightarrow> dict_in (title c) u \<or> title c \<in> title ` set previous_pinned"
    using assms(3) by (rule log_and_update_keys)
  also have "title c \<in> title ` set previous_pinned
      \<longleftrightarrow> (\<exists>c' \<in> set previous_pinned. title c' = title c \<and> c' \<noteq> c \<and> promote (server w) c')"
  proof
    assume "title c \<in> title ` set previous_pinned"
    then obtain c' where c': "c' \<in> set previous_pinned" "title c' = title c" by auto
    with notin have "c' \<noteq> c" by blast
    with c' ok [OF c'(1)] show "\<exists>c' \<in> set previous_pinned.
        title c' = title c \<and> c' \<noteq> c \<and> promote (server w) c'" by blast
  next
    assume "\<exists>c' \<in> set previous_pinned. title c' = title c \<and> c' \<noteq> c \<and> promote (server w) c'"
    then obtain c' where c': "c' \<in> set previous_pinned" "title c' = title c" by blast
    from c'(1) have "title c' \<in> title ` set previous_pinned" by (rule imageI)
    with c'(2) show "title c \<in> title ` set previous_pinned" by simp
  qed
  finally show "dict_in (title c) u' \<longleftrightarrow>
            dict_in (title c) u
            \<or> (\<exists>c' \<in> set previous_pinned. title c' = title c \<and> c' \<noteq> c \<and> promote (server w) c')" .
next
  fix cs
  show "fst (pin_loop (server w) cs) = filter (promote (server w)) cs"
    by (rule pin_loop_pinned)
  assume "c \<in> set cs"
  with assms(1) show "ErrorPinning (title c) \<in> set (snd (pin_loop (server w) cs))"
    by (simp add: pin_loop_logs)
  show "\<forall>c' \<in> set cs. Promote c' \<in> set (snd (pin_loop (server w) cs))"
    by (simp add: pin_loop_attempts)
qed

theorem failed_pin_skipped_witness:
  "\<not> promote (server pin_world) \<lparr>ident = 1, title = ''Action'', items = Some 2\<rparr>
   \<and> library_loop pin_config pin_world 1 [] [] 0 [''Movies'', ''TV'']
       = ([\<lparr>ident = 2, title = ''Action'', items = Some 4\<rparr>], False,
          [Promote \<lparr>ident = 1, title = ''Action'', items = Some 2\<rparr>,
           ErrorPinning ''Action'',
           Promote \<lparr>ident = 2, title = ''Action'', items = Some 4\<rparr>])
   \<and> log_and_update_exclusion_list (format_date pin_world) 738886
         [\<lparr>ident = 2, title = ''Action'', items = Some 4\<rparr>] [] 3
       = Inr [(''Action'', ''2024-01-04'')]
   \<and> \<lparr>ident = 1, title = ''Action'', items = Some 2\<rparr>
        \<notin> set [\<lparr>ident = 2, title = ''Action'', items = Some 4\<rparr>]
   \<and> ErrorPinning ''Action''
        \<in> set (snd (pin_loop (server pin_world)
                      [\<lparr>ident = 1, title = ''Action'', items = Some 2\<rparr>]))"
proof -
  let ?c = "\<lparr>ident = 1, title = ''Action'', items = Some 2\<rparr>"
  let ?c' = "\<lparr>ident = 2, title = ''Action'', items = Some 4\<rparr>"
  have h1: "\<not> promote (server pin_world) ?c" by (simp add: pin_world_def)
  have h2: "library_loop pin_config pin_world 1 [] [] 0 [''Movies'', ''TV'']
              = ([?c'], False, [Promote ?c, ErrorPinning ''Action'', Promote ?c'])"
    by code_simp
  have h3: "log_and_update_exclusion_list (format_date pin_world) 738886 [?c'] [] 3
              = Inr [(''Action'', ''2024-01-04'')]"
    by (simp add: date_add_def pin_world_def)
  note r = failed_pin_skipped [OF h1 h2 h3]
  from r have a: "?c \<notin> set [?c']" by (rule conjunct1)
  from r [THEN conjunct2, THEN conjunct2, rule_format, of "[?c]"]
  have b: "ErrorPinning ''Action'' \<in> set (snd (pin_loop (server pin_world) [?c]))"
    by simp
  from h1 h2 h3 a b show ?thesis by (intro conjI)
qed

section \<open>The default quota\<close>

text \<open>
  Claim C9 against the code. On a configuration as the settings tab saves it, with the
  default limit 3 for Movies and no time block, the resolver returns the block name
  Default with the quota 3, and the limit the selection uses is 5: it is read from the
  \<^verbatim>\<open>default_limit\<close> of \<^verbatim>\<open>libraries_settings\<close>, which is missing, not from the quota
  the resolver returned.
\<close>

theorem saved_default_limit_not_used:
  "get_current_time_block saved_config ''Movies'' ''Monday'' ''12:00'' = Inr (''Default'', 3)
   \<and> final_limit saved_config ''Movies'' ''Monday'' ''12:00'' = Inr 5"
  by (simp add: get_current_time_block_def final_limit_def saved_config_def settings_of_def
        dict_get_def)

section \<open>The special case handler\<close>

text \<open>
  Claim C10. The calls the special case handler makes on the server are, library by
  library in the configured order: none when the library cannot be listed or has no
  collection whose lower-cased title is \<^verbatim>\<open>new episodes\<close>; otherwise one call, on the
  first such collection, a pin when the flag is true and an unpin when it is false.
\<close>

theorem new_episodes_one_per_library:
  "filter is_call (handle_new_episodes_pinning srv libs flag)
     = concat (map (\<lambda>library_name.
          case collections_of srv library_name of
            None \<Rightarrow> []
          | Some cs \<Rightarrow>
              (case find (\<lambda>c. lower (title c) = ''new episodes'') cs of
                 None \<Rightarrow> []
               | Some c \<Rightarrow> [if flag then Promote c else Demote c])) libs)"
  by (induction libs) (auto simp: new_episodes_loop_calls split: option.splits)

theorem new_episodes_one_per_library_witness:
  "filter is_call (handle_new_episodes_pinning episodes_server [''TV'', ''Anime''] True)
     = [Promote \<lparr>ident = 2, title = ''NEW Episodes'', items = Some 7\<rparr>]
   \<and> filter is_call (handle_new_episodes_pinning episodes_server [''TV'', ''Anime''] False)
     = [Demote \<lparr>ident = 2, title = ''NEW Episodes'', items = Some 7\<rparr>]"
proof -
  have l1: "lower ''Drama'' \<noteq> ''new episodes''" by code_simp
  have l2: "lower ''NEW Episodes'' = ''new episodes''" by code_simp
  have c1: "collections_of episodes_server ''TV''
      = Some [\<lparr>ident = 1, title = ''Drama'', items = Some 3\<rparr>,
              \<lparr>ident = 2, title = ''NEW Episodes'', items = Some 7\<rparr>,
              \<lparr>ident = 3, title = ''New Episodes'', items = Some 9\<rparr>]"
    by (simp add: episodes_server_def)
  have c2: "collections_of episodes_server ''Anime'' = None"
    by (simp add: episodes_server_def)
  show ?thesis
    using new_episodes_one_per_library [of episodes_server "[''TV'', ''Anime'']" True]
      new_episodes_one_per_library [of episodes_server "[''TV'', ''Anime'']" False]
    by (simp add: c1 c2 l1 l2)
qed

end
